theory Spec2Isabelle
  imports Main "HOL-Library.AList"
begin

section \<open>JavaScript values\<close>

text \<open>
  The values that cross the module boundaries of the presenter: what a caller hands to
  \<^verbatim>\<open>setCurrentPage\<close>, what the voice agent hands to a client tool, and the
  message payloads of the voice session.

  \<^item> \<open>JNum n\<close> is the number with the integer value \<open>n\<close> (page numbers and page counts).
    Comparison and \<^verbatim>\<open>Number.isInteger\<close> are exact on such numbers; printing and reading
    them is exact below \<open>2\<^sup>5\<^sup>3\<close> and left to the host from there on (see the tool
    adapter).
  \<^item> \<open>JFrac s\<close> is a finite number with a fractional part, given by the string JavaScript
    converts it to (\<^verbatim>\<open>2.5\<close>, \<^verbatim>\<open>1e-7\<close>); \<open>JNaN\<close> and \<open>JInfinity negative\<close> are the other
    numbers that are not integers. This program never computes with such a number: it
    tests it with \<^verbatim>\<open>Number.isInteger\<close> or converts it to a string.
  \<^item> Strings are lists of code units in the 8-bit range.
  \<^item> Objects are plain property lists, the first binding of a key being the property.
\<close>

datatype jsval =
    JUndefined
  | JNull
  | JBool bool
  | JNum int
  | JFrac string
  | JNaN
  | JInfinity bool
  | JStr string
  | JObj "(string \<times> jsval) list"

datatype error = Error string | TypeError

text \<open>\<^verbatim>\<open>typeof v\<close>; \<^verbatim>\<open>typeof null\<close> is \<^verbatim>\<open>'object'\<close>.\<close>

fun typeof :: "jsval \<Rightarrow> string" where
  "typeof JUndefined = ''undefined''"
| "typeof JNull = ''object''"
| "typeof (JBool b) = ''boolean''"
| "typeof (JNum n) = ''number''"
| "typeof (JFrac s) = ''number''"
| "typeof JNaN = ''number''"
| "typeof (JInfinity negative) = ''number''"
| "typeof (JStr s) = ''string''"
| "typeof (JObj kvs) = ''object''"

text \<open>ToBoolean: the falsy values are undefined, null, false, 0, NaN and the empty string.\<close>

fun truthy :: "jsval \<Rightarrow> bool" where
  "truthy JUndefined = False"
| "truthy JNull = False"
| "truthy (JBool b) = b"
| "truthy (JNum n) = (n \<noteq> 0)"
| "truthy (JFrac s) = True"
| "truthy JNaN = False"
| "truthy (JInfinity negative) = True"
| "truthy (JStr s) = (s \<noteq> [])"
| "truthy (JObj kvs) = True"

fun nullish :: "jsval \<Rightarrow> bool" where
  "nullish JUndefined = True"
| "nullish JNull = True"
| "nullish v = False"

text \<open>
  \<^verbatim>\<open>v.key\<close>: a TypeError on undefined and null, the property of an object (undefined
  when absent), and undefined on the other primitives, none of whose prototypes carries
  one of the keys this program reads.
\<close>

fun get_prop :: "jsval \<Rightarrow> string \<Rightarrow> error + jsval" where
  "get_prop JUndefined key = Inl TypeError"
| "get_prop JNull key = Inl TypeError"
| "get_prop (JObj kvs) key = Inr (case map_of kvs key of None \<Rightarrow> JUndefined | Some v \<Rightarrow> v)"
| "get_prop v key = Inr JUndefined"

section \<open>The page state store (state-manager.js)\<close>

datatype event_data =
    PageChanged (ev_currentPage: int) (ev_previousPage: int) (ev_totalPages: int)
  | ChatToggled (ev_visible: bool)

datatype outcome = Returns | Throws string

text \<open>
  One invocation of a listener, as the store makes it: which callback, with which event
  data, what \<^verbatim>\<open>getCurrentPage()\<close> answered at that moment, and how the call ended.
\<close>

record call =
  who :: nat
  payload :: event_data
  seenPage :: int
  result :: outcome

text \<open>
  The fields of \<^verbatim>\<open>StateManager\<close>. \<open>listeners\<close> is the Map from event type to the Set
  of callbacks, each Set in insertion order; a callback is a function object, known by its
  identity. The last three fields are observations: the events handed to \<^verbatim>\<open>_emit\<close>,
  the listener invocations, and the lines \<^verbatim>\<open>_emit\<close> writes with \<^verbatim>\<open>console.error\<close>.
\<close>

record store =
  totalPages :: int
  currentPage :: int
  listeners :: "(string \<times> nat list) list"
  emitted :: "(string \<times> event_data) list"
  calls :: "call list"
  errlog :: "string list"

text \<open>
  What a callback does when called: a function of its identity, the store as it stands at
  the call and the event data. Callbacks observe the store; they do not call back into it
  while \<^verbatim>\<open>_emit\<close> runs.
\<close>

type_synonym behaviour = "nat \<Rightarrow> store \<Rightarrow> event_data \<Rightarrow> outcome"

datatype callback_arg = Function nat | NotFunction jsval

definition StateManager_constructor :: "int option \<Rightarrow> error + store" where
  "StateManager_constructor arg =
     (case arg of
        None \<Rightarrow> Inl (Error ''totalPages must be a positive number'')
      | Some pages \<Rightarrow>
          if pages = 0 \<or> pages < 1 then Inl (Error ''totalPages must be a positive number'')
          else Inr \<lparr>totalPages = pages, currentPage = 1, listeners = [],
                    emitted = [], calls = [], errlog = []\<rparr>)"

definition getCurrentPage :: "store \<Rightarrow> int" where
  "getCurrentPage st = currentPage st"

definition getTotalPages :: "store \<Rightarrow> int" where
  "getTotalPages st = totalPages st"

text \<open>The body of the \<^verbatim>\<open>forEach\<close> in \<^verbatim>\<open>_emit\<close>: the call inside try/catch.\<close>

definition invoke :: "behaviour \<Rightarrow> event_data \<Rightarrow> nat \<Rightarrow> store \<Rightarrow> store" where
  "invoke beh d f st =
     (case beh f st d of
        Returns \<Rightarrow>
          st\<lparr>calls := calls st @
                [\<lparr>who = f, payload = d, seenPage = getCurrentPage st, result = Returns\<rparr>]\<rparr>
      | Throws e \<Rightarrow>
          st\<lparr>calls := calls st @
                [\<lparr>who = f, payload = d, seenPage = getCurrentPage st, result = Throws e\<rparr>],
             errlog := errlog st @ [e]\<rparr>)"

fun forEach :: "behaviour \<Rightarrow> event_data \<Rightarrow> nat list \<Rightarrow> store \<Rightarrow> store" where
  "forEach beh d [] st = st"
| "forEach beh d (f # fs) st = forEach beh d fs (invoke beh d f st)"

definition emit :: "behaviour \<Rightarrow> string \<Rightarrow> event_data \<Rightarrow> store \<Rightarrow> store" where
  "emit beh eventType d st =
     (let st1 = st\<lparr>emitted := emitted st @ [(eventType, d)]\<rparr> in
      case map_of (listeners st1) eventType of
        None \<Rightarrow> st1
      | Some fs \<Rightarrow> forEach beh d fs st1)"

text \<open>
  \<^verbatim>\<open>Number.isInteger(v)\<close>: false for every value that is not a number, and for the
  numbers that are not integers.
\<close>

fun Number_isInteger :: "jsval \<Rightarrow> bool" where
  "Number_isInteger (JNum n) = True"
| "Number_isInteger v = False"

definition setCurrentPage :: "behaviour \<Rightarrow> jsval \<Rightarrow> store \<Rightarrow> bool \<times> store" where
  "setCurrentPage beh pageNum st =
     (case pageNum of
        JNum n \<Rightarrow>
          if \<not> Number_isInteger pageNum \<or> n < 1 \<or> n > totalPages st then (False, st)
          else if n = currentPage st then (False, st)
          else
            let previousPage = currentPage st;
                st1 = st\<lparr>currentPage := n\<rparr>
            in (True, emit beh ''pageChanged''
                        (PageChanged (currentPage st1) previousPage (totalPages st1)) st1)
      | _ \<Rightarrow> (False, st))"

definition canGoNext :: "store \<Rightarrow> bool" where
  "canGoNext st = (currentPage st < totalPages st)"

definition canGoPrevious :: "store \<Rightarrow> bool" where
  "canGoPrevious st = (currentPage st > 1)"

text \<open>
  \<^verbatim>\<open>Set.prototype.add\<close> and \<^verbatim>\<open>delete\<close> on a Set kept in insertion order. Only functions
  are ever added, so deleting a value that is no function finds nothing.
\<close>

definition Set_add :: "nat \<Rightarrow> nat list \<Rightarrow> nat list" where
  "Set_add f fs = (if f \<in> set fs then fs else fs @ [f])"

definition Set_delete :: "callback_arg \<Rightarrow> nat list \<Rightarrow> nat list" where
  "Set_delete callback fs =
     (case callback of Function f \<Rightarrow> removeAll f fs | NotFunction v \<Rightarrow> fs)"

definition addEventListener :: "string \<Rightarrow> callback_arg \<Rightarrow> store \<Rightarrow> error + store" where
  "addEventListener eventType callback st =
     (case callback of
        NotFunction v \<Rightarrow> Inl (Error ''Callback must be a function'')
      | Function f \<Rightarrow>
          let ls = (case map_of (listeners st) eventType of
                      None \<Rightarrow> AList.update eventType [] (listeners st)
                    | Some fs \<Rightarrow> listeners st)
          in Inr (st\<lparr>listeners :=
                     (case map_of ls eventType of
                        None \<Rightarrow> ls
                      | Some fs \<Rightarrow> AList.update eventType (Set_add f fs) ls)\<rparr>))"

definition removeEventListener :: "string \<Rightarrow> callback_arg \<Rightarrow> store \<Rightarrow> store" where
  "removeEventListener eventType callback st =
     (case map_of (listeners st) eventType of
        None \<Rightarrow> st
      | Some fs \<Rightarrow>
          st\<lparr>listeners := AList.update eventType (Set_delete callback fs) (listeners st)\<rparr>)"

text \<open>The callbacks registered for an event type, in registration order.\<close>

definition registered :: "store \<Rightarrow> string \<Rightarrow> nat list" where
  "registered st eventType =
     (case map_of (listeners st) eventType of None \<Rightarrow> [] | Some fs \<Rightarrow> fs)"

text \<open>
  The states a store can be in: built by the constructor with page count \<open>T\<close>, then driven
  by its public methods and by the \<^verbatim>\<open>chatToggled\<close> events the chat panel emits
  through \<^verbatim>\<open>_emit\<close>.
\<close>

inductive reachable :: "behaviour \<Rightarrow> int \<Rightarrow> store \<Rightarrow> bool" for beh :: behaviour and T :: int where
  constructed: "StateManager_constructor (Some T) = Inr st \<Longrightarrow> reachable beh T st"
| page_set: "reachable beh T st \<Longrightarrow> reachable beh T (snd (setCurrentPage beh v st))"
| listener_added:
    "reachable beh T st \<Longrightarrow> addEventListener ty cb st = Inr st' \<Longrightarrow> reachable beh T st'"
| listener_removed: "reachable beh T st \<Longrightarrow> reachable beh T (removeEventListener ty f st)"
| chat_toggled:
    "reachable beh T st \<Longrightarrow> reachable beh T (emit beh ''chatToggled'' (ChatToggled b) st)"

text \<open>A run of \<^verbatim>\<open>setCurrentPage\<close> calls, one per argument, in order.\<close>

fun setCurrentPage_run :: "behaviour \<Rightarrow> jsval list \<Rightarrow> store \<Rightarrow> store" where
  "setCurrentPage_run beh [] st = st"
| "setCurrentPage_run beh (v # vs) st = setCurrentPage_run beh vs (snd (setCurrentPage beh v st))"

text \<open>The listener invocations recorded in \<open>st'\<close> beyond those already in \<open>st\<close>.\<close>

definition calls_since :: "store \<Rightarrow> store \<Rightarrow> call list" where
  "calls_since st st' = drop (length (calls st)) (calls st')"

text \<open>The errors a run of invocations raised, in order: what \<^verbatim>\<open>_emit\<close> logs.\<close>

fun thrown_by :: "outcome \<Rightarrow> string list" where
  "thrown_by Returns = []"
| "thrown_by (Throws e) = [e]"

definition thrown :: "call list \<Rightarrow> string list" where
  "thrown cs = concat (map (\<lambda>c. thrown_by (result c)) cs)"

text \<open>
  An invocation is in order for event data \<open>d\<close> and page \<open>p\<close>: the callback got \<open>d\<close>, the
  store answered \<open>p\<close> while it ran, and the recorded end of the call is the callback's own.
\<close>

definition call_ok :: "behaviour \<Rightarrow> event_data \<Rightarrow> int \<Rightarrow> call \<Rightarrow> bool" where
  "call_ok beh d p c \<longleftrightarrow> payload c = d \<and> seenPage c = p \<and> (\<exists>s. result c = beh (who c) s d)"

section \<open>The tool adapter (client-tools.js) and the navigation controller\<close>

text \<open>
  The code units that \<^verbatim>\<open>String.prototype.trim\<close> and \<^verbatim>\<open>parseInt\<close> skip: white space and
  line terminators; in the 8-bit range these are TAB, LF, VT, FF, CR, SP and NBSP.
\<close>

definition js_whitespace :: "char \<Rightarrow> bool" where
  "js_whitespace c \<longleftrightarrow> c \<in> set [CHR 0x09, CHR 0x0A, CHR 0x0B, CHR 0x0C, CHR 0x0D, CHR 0x20, CHR 0xA0]"

text \<open>
  The safe integers: the integers of magnitude below \<open>2\<^sup>5\<^sup>3\<close>. Each is a number of its
  own, JavaScript prints it with its decimal digits, and reading those digits gives the
  number back.
\<close>

definition safe_integer :: "int \<Rightarrow> bool" where
  "safe_integer n \<longleftrightarrow> - 9007199254740992 < n \<and> n < 9007199254740992"

text \<open>What \<^verbatim>\<open>parseInt\<close> returns: NaN, an integer-valued number, or an infinity.\<close>

datatype parsed = PNaN | PInt int | PInfinity bool

text \<open>
  From \<open>2\<^sup>5\<^sup>3\<close> on, printing and reading are those of double-precision numbers:
  printing gives the shortest digits that read back as the number, in exponent form from
  \<open>10\<^sup>2\<^sup>1\<close> on (\<^verbatim>\<open>String(1e21)\<close> is \<^verbatim>\<open>1e+21\<close>), and reading rounds to the nearest number,
  in part as the implementation chooses. Both are taken as given: \<open>print_large\<close> is the
  string of a number of that size, \<open>read_large\<close> the number read from an integer of that
  size. What is proved holds whatever they are.
\<close>

record host =
  print_large :: "int \<Rightarrow> string"
  read_large :: "int \<Rightarrow> parsed"

text \<open>
  Number-to-string conversion of an integer-valued number, as a template literal and
  \<^verbatim>\<open>parseInt\<close> see a page number.
\<close>

definition digit_char :: "nat \<Rightarrow> char" where
  "digit_char d = ''0123456789'' ! d"

fun digits :: "nat \<Rightarrow> string" where
  "digits n = (if n < 10 then [digit_char n] else digits (n div 10) @ [digit_char (n mod 10)])"

declare digits.simps [simp del]

definition Number_toString :: "host \<Rightarrow> int \<Rightarrow> string" where
  "Number_toString h n =
     (if safe_integer n
      then (if n < 0 then CHR ''-'' # digits (nat (- n)) else digits (nat n))
      else print_large h n)"

text \<open>ToString of a value; a plain object renders as \<^verbatim>\<open>[object Object]\<close>.\<close>

fun ToString :: "host \<Rightarrow> jsval \<Rightarrow> string" where
  "ToString h JUndefined = ''undefined''"
| "ToString h JNull = ''null''"
| "ToString h (JBool b) = (if b then ''true'' else ''false'')"
| "ToString h (JNum n) = Number_toString h n"
| "ToString h (JFrac s) = s"
| "ToString h JNaN = ''NaN''"
| "ToString h (JInfinity negative) = (if negative then ''-Infinity'' else ''Infinity'')"
| "ToString h (JStr s) = s"
| "ToString h (JObj kvs) = ''[object Object]''"

text \<open>
  \<^verbatim>\<open>parseInt(v)\<close> without a radix: the value is converted to a string, leading white space
  and one sign are dropped, a \<^verbatim>\<open>0x\<close> or \<^verbatim>\<open>0X\<close> prefix selects radix 16, and the longest
  prefix of digits of the radix is read; no digit at all gives NaN. A safe integer is
  the result as it stands, a larger one is read as the host reads it.
\<close>

definition is_digit :: "nat \<Rightarrow> char \<Rightarrow> bool" where
  "is_digit R c =
     (let k = (of_char c :: nat) in
      (48 \<le> k \<and> k \<le> 57) \<or> (R = 16 \<and> ((97 \<le> k \<and> k \<le> 102) \<or> (65 \<le> k \<and> k \<le> 70))))"

definition digit_value :: "char \<Rightarrow> nat" where
  "digit_value c =
     (let k = (of_char c :: nat) in
      if k \<le> 57 then k - 48 else if 97 \<le> k then k - 87 else k - 55)"

definition parseInt :: "host \<Rightarrow> jsval \<Rightarrow> parsed" where
  "parseInt h v =
     (let inputString = ToString h v;
          S = dropWhile js_whitespace inputString;
          sign = (case S of c # cs \<Rightarrow> if c = CHR ''-'' then - 1 else 1 | [] \<Rightarrow> (1::int));
          S1 = (case S of c # cs \<Rightarrow> if c = CHR ''+'' \<or> c = CHR ''-'' then cs else S | [] \<Rightarrow> S);
          hex = (case S1 of c # d # cs \<Rightarrow> c = CHR ''0'' \<and> (d = CHR ''x'' \<or> d = CHR ''X'')
                 | _ \<Rightarrow> False);
          R = (if hex then 16 else 10);
          S2 = (if hex then drop 2 S1 else S1);
          Z = takeWhile (is_digit R) S2
      in if Z = [] then PNaN
         else
           let mathInt = sign * int (foldl (\<lambda>a c. a * R + digit_value c) 0 Z) in
           if safe_integer mathInt then PInt mathInt else read_large h mathInt)"

text \<open>The result object of a client tool.\<close>

record tool_result =
  success :: bool
  message :: string
  res_currentPage :: int
  res_totalPages :: int

text \<open>
  \<^verbatim>\<open>NavigationController.goToPage\<close> hands the page to the store and returns its answer;
  the controller's \<^verbatim>\<open>getCurrentPage\<close> and \<^verbatim>\<open>getTotalPages\<close> are the store's.
\<close>

definition NavigationController_goToPage :: "behaviour \<Rightarrow> jsval \<Rightarrow> store \<Rightarrow> bool \<times> store" where
  "NavigationController_goToPage beh pageNum st =
     (let (changed, st') = setCurrentPage beh pageNum st in
      if \<not> changed then (False, st') else (True, st'))"

text \<open>
  The \<^verbatim>\<open>goToPage\<close> tool of \<^verbatim>\<open>registerClientTools\<close>. It is an async function: an exception
  in its body rejects the promise it returns, here \<open>Inl\<close>. The test
  \<^verbatim>\<open>isNaN(pageNumber) || pageNumber < 1 || pageNumber > total\<close> holds of NaN by its first
  disjunct, of minus infinity by its second and of plus infinity by its third.
\<close>

definition clientTools_goToPage ::
    "host \<Rightarrow> behaviour \<Rightarrow> jsval \<Rightarrow> store \<Rightarrow> error + (tool_result \<times> store)" where
  "clientTools_goToPage h beh params st =
     (case (if typeof params = ''object'' then get_prop params ''pageNumber'' else Inr params) of
        Inl e \<Rightarrow> Inl e
      | Inr pageNum \<Rightarrow>
          let pageNumber = parseInt h pageNum;
              tot = getTotalPages st;
              invalid =
                \<lparr>success = False,
                 message = ''Invalid page number. Must be between 1 and '' @ Number_toString h tot,
                 res_currentPage = getCurrentPage st, res_totalPages = tot\<rparr>
          in (case pageNumber of
                PNaN \<Rightarrow> Inr (invalid, st)
              | PInfinity negative \<Rightarrow> Inr (invalid, st)
              | PInt n \<Rightarrow>
                  if n < 1 \<or> n > tot then Inr (invalid, st)
                  else
                    let (ok, st') = NavigationController_goToPage beh (JNum n) st in
                    if ok then
                      Inr (\<lparr>success = True,
                            message = ''Jumped to page '' @ Number_toString h n @ '' of ''
                                        @ Number_toString h tot,
                            res_currentPage = n, res_totalPages = tot\<rparr>, st')
                    else
                      Inr (\<lparr>success = False,
                            message = ''Failed to navigate to page '' @ Number_toString h n,
                            res_currentPage = getCurrentPage st', res_totalPages = tot\<rparr>, st')))"

text \<open>
  The value the tool reads as the page when its argument is not null: the
  \<^verbatim>\<open>pageNumber\<close> property of an object, the argument itself otherwise.
\<close>

definition page_argument :: "jsval \<Rightarrow> jsval" where
  "page_argument params =
     (case params of
        JObj kvs \<Rightarrow> (case map_of kvs ''pageNumber'' of None \<Rightarrow> JUndefined | Some v \<Rightarrow> v)
      | _ \<Rightarrow> params)"


section \<open>The transcript manager (transcript-manager.js)\<close>

text \<open>
  A \<^verbatim>\<open>Date\<close>: \<^verbatim>\<open>new Date()\<close> at a reading of the clock, or \<^verbatim>\<open>new Date(v)\<close>. The clock
  readings are parameters of the functions that take them.
\<close>

datatype date = DateNow nat | DateOf jsval

record entry =
  role :: string
  content :: string
  timestamp :: date

text \<open>
  The voice session as the transcript manager uses it: the names of its properties that
  are functions, and for a call of one of them with a text the message of the error it
  throws, if it throws.
\<close>

record conversation =
  methods :: "string list"
  raises :: "string \<Rightarrow> string \<Rightarrow> string option"

text \<open>
  The transcript manager with its chat panel: \<open>history\<close> is \<^verbatim>\<open>_history\<close>, \<open>display\<close> the
  messages of the chat panel (\<^verbatim>\<open>ChatInterface._messages\<close>, one per \<^verbatim>\<open>addMessage\<close>),
  \<open>session\<close> is \<^verbatim>\<open>_conversation\<close>, and \<open>sent\<close> records the calls made on the session.
\<close>

record transcript =
  history :: "entry list"
  display :: "entry list"
  session :: "conversation option"
  sent :: "(string \<times> string) list"

text \<open>
  \<^verbatim>\<open>_escapeHtml\<close> reads back as HTML a text node: ampersand, no-break space and the angle
  brackets become entities.
\<close>

definition escapeHtml :: "string \<Rightarrow> string" where
  "escapeHtml s =
     concat (map (\<lambda>c. if c = CHR ''&'' then ''&amp;''
                       else if c = CHR 0xA0 then ''&nbsp;''
                       else if c = CHR ''<'' then ''&lt;''
                       else if c = CHR ''>'' then ''&gt;''
                       else [c]) s)"

definition addMessage :: "string \<Rightarrow> string \<Rightarrow> date \<Rightarrow> transcript \<Rightarrow> transcript" where
  "addMessage r c t st =
     (let validRoles = [''user'', ''agent'', ''system''];
          r' = (if r \<notin> set validRoles then ''system'' else r)
      in st\<lparr>display := display st @ [\<lparr>role = r', content = escapeHtml c, timestamp = t\<rparr>]\<rparr>)"

definition addToHistory :: "string \<Rightarrow> string \<Rightarrow> date \<Rightarrow> transcript \<Rightarrow> transcript" where
  "addToHistory r c t st = st\<lparr>history := history st @ [\<lparr>role = r, content = c, timestamp = t\<rparr>]\<rparr>"

definition trim :: "string \<Rightarrow> string" where
  "trim s = rev (dropWhile js_whitespace (rev (dropWhile js_whitespace s)))"

text \<open>A property read on a value that is neither null nor undefined.\<close>

definition read_prop :: "jsval \<Rightarrow> string \<Rightarrow> jsval" where
  "read_prop v key = (case get_prop v key of Inl e \<Rightarrow> JUndefined | Inr x \<Rightarrow> x)"

text \<open>
  \<^verbatim>\<open>sendTextMessage\<close>, run to completion. \<open>now1\<close> and \<open>now2\<close> are the clock at its two
  \<^verbatim>\<open>new Date()\<close>. The session is probed for the five method names in the source's order.
\<close>

definition sendTextMessage :: "nat \<Rightarrow> nat \<Rightarrow> jsval \<Rightarrow> transcript \<Rightarrow> transcript" where
  "sendTextMessage now1 now2 text st =
     (if \<not> truthy text \<or> typeof text \<noteq> ''string'' then st
      else case text of
        JStr s \<Rightarrow>
          let trimmedText = trim s in
          if trimmedText = [] then st
          else
            let timestamp = DateNow now1;
                st1 = addToHistory ''user'' trimmedText timestamp st;
                st2 = addMessage ''user'' trimmedText timestamp st1
            in (case session st2 of
                  None \<Rightarrow> addMessage ''system'' ''Voice conversation not connected'' (DateNow now2) st2
                | Some conv \<Rightarrow>
                    (case find (\<lambda>m. m \<in> set (methods conv))
                            [''sendTextMessage'', ''sendMessage'', ''send'',
                             ''sendUserMessage'', ''sendText''] of
                       None \<Rightarrow>
                         addMessage ''system''
                           ''Text input is for display only - voice conversation required for agent interaction''
                           (DateNow now2) st2
                     | Some m \<Rightarrow>
                         let st3 = st2\<lparr>sent := sent st2 @ [(m, trimmedText)]\<rparr> in
                         (case raises conv m trimmedText of
                            None \<Rightarrow> st3
                          | Some err \<Rightarrow>
                              addMessage ''system'' (''Error sending message: '' @ err)
                                (DateNow now2) st3)))
      | _ \<Rightarrow> st)"

text \<open>The code units of a value whose \<^verbatim>\<open>typeof\<close> is \<^verbatim>\<open>'string'\<close>.\<close>

fun string_value :: "jsval \<Rightarrow> string" where
  "string_value (JStr s) = s"
| "string_value v = []"

text \<open>
  The three extractors read a property of the message first: on null and undefined that
  read throws.
\<close>

definition determineRole :: "jsval \<Rightarrow> error + string" where
  "determineRole msg =
     (if nullish msg then Inl TypeError
      else if read_prop msg ''source'' = JStr ''user'' \<or> read_prop msg ''type'' = JStr ''user_transcript''
        then Inr ''user''
      else if read_prop msg ''source'' = JStr ''ai'' \<or> read_prop msg ''type'' = JStr ''agent_response''
        then Inr ''agent''
      else if read_prop msg ''role'' = JStr ''user'' then Inr ''user''
      else if read_prop msg ''role'' = JStr ''assistant'' \<or> read_prop msg ''role'' = JStr ''agent''
        then Inr ''agent''
      else Inr ''agent'')"

definition extractContent :: "jsval \<Rightarrow> error + string option" where
  "extractContent msg =
     (if nullish msg then Inl TypeError
      else if truthy (read_prop msg ''message'') \<and> typeof (read_prop msg ''message'') = ''string''
        then Inr (Some (string_value (read_prop msg ''message'')))
      else if truthy (read_prop msg ''text'') \<and> typeof (read_prop msg ''text'') = ''string''
        then Inr (Some (string_value (read_prop msg ''text'')))
      else if truthy (read_prop msg ''content'') \<and> typeof (read_prop msg ''content'') = ''string''
        then Inr (Some (string_value (read_prop msg ''content'')))
      else if truthy (read_prop msg ''transcript'') \<and> typeof (read_prop msg ''transcript'') = ''string''
        then Inr (Some (string_value (read_prop msg ''transcript'')))
      else if typeof msg = ''string'' then Inr (Some (string_value msg))
      else Inr None)"

definition extractTimestamp :: "nat \<Rightarrow> jsval \<Rightarrow> error + date" where
  "extractTimestamp now msg =
     (if nullish msg then Inl TypeError
      else if truthy (read_prop msg ''timestamp'') then Inr (DateOf (read_prop msg ''timestamp''))
      else if truthy (read_prop msg ''time'') then Inr (DateOf (read_prop msg ''time''))
      else Inr (DateNow now))"

definition handleVoiceMessage :: "nat \<Rightarrow> jsval \<Rightarrow> transcript \<Rightarrow> error + transcript" where
  "handleVoiceMessage now msg st =
     (if \<not> truthy msg then Inr st
      else case determineRole msg of
        Inl e \<Rightarrow> Inl e
      | Inr r \<Rightarrow>
          (case extractContent msg of
             Inl e \<Rightarrow> Inl e
           | Inr c \<Rightarrow>
               (case extractTimestamp now msg of
                  Inl e \<Rightarrow> Inl e
                | Inr t \<Rightarrow>
                    (case c of
                       None \<Rightarrow> Inr st
                     | Some s \<Rightarrow>
                         if s = [] then Inr st
                         else Inr (addMessage r s t (addToHistory r s t st))))))"

text \<open>
  The specification's wording of role inference and content extraction. Role: the first
  rule that matches wins, the default is agent. Content: the first non-empty string among
  the fields \<^verbatim>\<open>message\<close>, \<^verbatim>\<open>text\<close>, \<^verbatim>\<open>content\<close>, \<^verbatim>\<open>transcript\<close>, then the payload itself
  if it is a string, else null; the first non-empty string match wins, over the whole
  order.
\<close>

fun first_match :: "(bool \<times> 'a) list \<Rightarrow> 'a \<Rightarrow> 'a" where
  "first_match [] d = d"
| "first_match ((c, x) # rest) d = (if c then x else first_match rest d)"

definition role_by_order :: "jsval \<Rightarrow> string" where
  "role_by_order msg =
     first_match
       [(read_prop msg ''source'' = JStr ''user'' \<or> read_prop msg ''type'' = JStr ''user_transcript'', ''user''),
        (read_prop msg ''source'' = JStr ''ai'' \<or> read_prop msg ''type'' = JStr ''agent_response'', ''agent''),
        (read_prop msg ''role'' = JStr ''user'', ''user''),
        (read_prop msg ''role'' \<in> {JStr ''assistant'', JStr ''agent''}, ''agent'')]
       ''agent''"

fun nonempty_string :: "jsval \<Rightarrow> string option" where
  "nonempty_string (JStr s) = (if s = [] then None else Some s)"
| "nonempty_string v = None"

fun first_some :: "'a option list \<Rightarrow> 'a option" where
  "first_some [] = None"
| "first_some (None # xs) = first_some xs"
| "first_some (Some x # xs) = Some x"

definition content_by_order :: "jsval \<Rightarrow> string option" where
  "content_by_order msg =
     first_some (map (\<lambda>k. nonempty_string (read_prop msg k))
                   [''message'', ''text'', ''content'', ''transcript'']
                 @ [nonempty_string msg])"

text \<open>The transcript with one more entry in the history and one more in the display.\<close>

definition appended :: "string \<Rightarrow> string \<Rightarrow> date \<Rightarrow> transcript \<Rightarrow> transcript" where
  "appended r c t st =
     st\<lparr>history := history st @ [\<lparr>role = r, content = c, timestamp = t\<rparr>],
        display := display st @ [\<lparr>role = r, content = escapeHtml c, timestamp = t\<rparr>]\<rparr>"

section \<open>Sample data\<close>

text \<open>
  Sample data: callbacks that all return, callbacks of which one throws, and the store a
  constructor call with \<open>T\<close> pages returns.
\<close>

definition quiet :: behaviour where
  "quiet f st d = Returns"

definition faulty :: "nat \<Rightarrow> behaviour" where
  "faulty bad f st d = (if f = bad then Throws ''listener failed'' else Returns)"

definition fresh :: "int \<Rightarrow> store" where
  "fresh T = \<lparr>totalPages = T, currentPage = 1, listeners = [],
              emitted = [], calls = [], errlog = []\<rparr>"

definition watched :: "nat list \<Rightarrow> store" where
  "watched fs = \<lparr>totalPages = 10, currentPage = 1, listeners = [(''pageChanged'', fs)],
                 emitted = [], calls = [], errlog = []\<rparr>"

text \<open>
  A transcript manager fresh from its constructor with no session, and one bound to a
  session that offers \<^verbatim>\<open>sendMessage\<close>.
\<close>

definition empty_transcript :: transcript where
  "empty_transcript = \<lparr>history = [], display = [], session = None, sent = []\<rparr>"

definition connected :: transcript where
  "connected = \<lparr>history = [], display = [],
                 session = Some \<lparr>methods = [''sendMessage''], raises = (\<lambda>m t. None)\<rparr>,
                 sent = []\<rparr>"



section \<open>Properties of the store\<close>

lemma invoke_fields [simp]:
  "totalPages (invoke beh d f st) = totalPages st"
  "currentPage (invoke beh d f st) = currentPage st"
  "listeners (invoke beh d f st) = listeners st"
  "emitted (invoke beh d f st) = emitted st"
  by (simp_all add: invoke_def split: outcome.splits)

lemma forEach_fields [simp]:
  "totalPages (forEach beh d fs st) = totalPages st"
  "currentPage (forEach beh d fs st) = currentPage st"
  "listeners (forEach beh d fs st) = listeners st"
  "emitted (forEach beh d fs st) = emitted st"
  by (induction fs arbitrary: st) simp_all

lemma emit_fields [simp]:
  "totalPages (emit beh ty d st) = totalPages st"
  "currentPage (emit beh ty d st) = currentPage st"
  "listeners (emit beh ty d st) = listeners st"
  "emitted (emit beh ty d st) = emitted st @ [(ty, d)]"
  by (simp_all add: emit_def Let_def split: option.splits)

lemma thrown_simps [simp]:
  "thrown [] = []"
  "thrown (c # cs) = thrown_by (result c) @ thrown cs"
  "thrown (xs @ ys) = thrown xs @ thrown ys"
  by (simp_all add: thrown_def)

lemma invoke_calls:
  "calls (invoke beh d f st) =
     calls st @ [\<lparr>who = f, payload = d, seenPage = currentPage st, result = beh f st d\<rparr>]"
  by (cases "beh f st d") (simp_all add: invoke_def getCurrentPage_def)

lemma invoke_errlog:
  "errlog (invoke beh d f st) =
     errlog st @ thrown [\<lparr>who = f, payload = d, seenPage = currentPage st, result = beh f st d\<rparr>]"
  by (cases "beh f st d") (simp_all add: invoke_def getCurrentPage_def)

lemma call_ok_invoke:
  "call_ok beh d (currentPage st)
     \<lparr>who = f, payload = d, seenPage = currentPage st, result = beh f st d\<rparr>"
  unfolding call_ok_def by (simp, rule exI [of _ st], rule refl)

lemma forEach_log:
  "\<exists>cs. calls (forEach beh d fs st) = calls st @ cs \<and> map who cs = fs
        \<and> list_all (call_ok beh d (currentPage st)) cs
        \<and> errlog (forEach beh d fs st) = errlog st @ thrown cs"
proof (induction fs arbitrary: st)
  case Nil
  show ?case by simp
next
  case (Cons f fs)
  define c where "c = \<lparr>who = f, payload = d, seenPage = currentPage st, result = beh f st d\<rparr>"
  define st1 where "st1 = invoke beh d f st"
  have c1: "calls st1 = calls st @ [c]" unfolding st1_def c_def by (rule invoke_calls)
  have c2: "errlog st1 = errlog st @ thrown [c]" unfolding st1_def c_def by (rule invoke_errlog)
  have c3: "call_ok beh d (currentPage st) c" unfolding c_def by (rule call_ok_invoke)
  have c4: "who c = f" unfolding c_def by simp
  have c5: "currentPage st1 = currentPage st" unfolding st1_def by simp
  obtain cs where cs: "calls (forEach beh d fs st1) = calls st1 @ cs"
      "map who cs = fs"
      "list_all (call_ok beh d (currentPage st1)) cs"
      "errlog (forEach beh d fs st1) = errlog st1 @ thrown cs"
    using Cons.IH [of st1] by blast
  have r: "forEach beh d (f # fs) st = forEach beh d fs st1" unfolding st1_def by simp
  have h1: "calls (forEach beh d (f # fs) st) = calls st @ (c # cs)"
    unfolding r cs(1) c1 by simp
  have h2: "map who (c # cs) = f # fs" using c4 cs(2) by simp
  have h3: "list_all (call_ok beh d (currentPage st)) (c # cs)"
    using c3 cs(3) unfolding c5 by simp
  have h4: "errlog (forEach beh d (f # fs) st) = errlog st @ thrown (c # cs)"
    unfolding r cs(4) c2 by simp
  show ?case by (intro exI [of _ "c # cs"] conjI h1 h2 h3 h4)
qed

lemma emit_log:
  "\<exists>cs. calls (emit beh ty d st) = calls st @ cs
        \<and> map who cs = (case map_of (listeners st) ty of None \<Rightarrow> [] | Some fs \<Rightarrow> fs)
        \<and> list_all (call_ok beh d (currentPage st)) cs
        \<and> errlog (emit beh ty d st) = errlog st @ thrown cs"
proof (cases "map_of (listeners st) ty")
  case None
  have e: "emit beh ty d st = st\<lparr>emitted := emitted st @ [(ty, d)]\<rparr>"
    using None by (simp add: emit_def)
  show ?thesis unfolding e using None by (intro exI [of _ "[]"]) simp
next
  case (Some fs)
  define st1 where "st1 = st\<lparr>emitted := emitted st @ [(ty, d)]\<rparr>"
  have e: "emit beh ty d st = forEach beh d fs st1"
    using Some by (simp add: emit_def st1_def)
  have f: "calls st1 = calls st" "errlog st1 = errlog st" "currentPage st1 = currentPage st"
    by (simp_all add: st1_def)
  show ?thesis
    unfolding e using forEach_log [of beh d fs st1] Some unfolding f by simp
qed

lemma calls_since_append: "calls st' = calls st @ cs \<Longrightarrow> calls_since st st' = cs"
  by (simp add: calls_since_def)

lemma setCurrentPage_JNum:
  "setCurrentPage beh (JNum n) st =
     (if 1 \<le> n \<and> n \<le> totalPages st \<and> n \<noteq> currentPage st
      then (True, emit beh ''pageChanged'' (PageChanged n (currentPage st) (totalPages st))
                    (st\<lparr>currentPage := n\<rparr>))
      else (False, st))"
  by (simp add: setCurrentPage_def Let_def)

lemma setCurrentPage_not_number:
  "\<not> Number_isInteger v \<Longrightarrow> setCurrentPage beh v st = (False, st)"
  by (cases v) (simp_all add: setCurrentPage_def)

lemma setCurrentPage_accepted_iff:
  "fst (setCurrentPage beh v st) \<longleftrightarrow>
     (\<exists>n. v = JNum n \<and> 1 \<le> n \<and> n \<le> totalPages st \<and> n \<noteq> currentPage st)"
proof (cases v)
  case (JNum n)
  then show ?thesis by (simp add: setCurrentPage_JNum)
qed (simp_all add: setCurrentPage_not_number)

lemma setCurrentPage_rejected:
  assumes "\<not> fst (setCurrentPage beh v st)"
  shows "snd (setCurrentPage beh v st) = st"
proof (cases v)
  case (JNum n)
  show ?thesis
  proof (cases "1 \<le> n \<and> n \<le> totalPages st \<and> n \<noteq> currentPage st")
    case True
    then show ?thesis using assms unfolding JNum setCurrentPage_JNum by simp
  next
    case False
    have "setCurrentPage beh (JNum n) st = (False, st)"
      unfolding setCurrentPage_JNum by (rule if_not_P [OF False])
    then show ?thesis unfolding JNum by simp
  qed
qed (simp_all add: setCurrentPage_not_number)

lemma setCurrentPage_fields:
  "totalPages (snd (setCurrentPage beh v st)) = totalPages st"
  "listeners (snd (setCurrentPage beh v st)) = listeners st"
  by (cases v; simp add: setCurrentPage_JNum setCurrentPage_not_number)+

lemma setCurrentPage_in_range:
  assumes "1 \<le> currentPage st" "currentPage st \<le> totalPages st"
  shows "1 \<le> currentPage (snd (setCurrentPage beh v st))
         \<and> currentPage (snd (setCurrentPage beh v st)) \<le> totalPages st"
proof (cases v)
  case (JNum n)
  then show ?thesis using assms by (simp add: setCurrentPage_JNum)
qed (simp_all add: setCurrentPage_not_number assms)

lemma constructor_Some:
  "StateManager_constructor (Some T) =
     (if T < 1 then Inl (Error ''totalPages must be a positive number'')
      else Inr \<lparr>totalPages = T, currentPage = 1, listeners = [],
                emitted = [], calls = [], errlog = []\<rparr>)"
  by (simp add: StateManager_constructor_def)

lemma addEventListener_Function:
  "addEventListener ty (Function f) st =
     Inr (st\<lparr>listeners := AList.update ty
            (Set_add f (case map_of (listeners st) ty of None \<Rightarrow> [] | Some fs \<Rightarrow> fs))
            (listeners st)\<rparr>)"
  by (cases "map_of (listeners st) ty")
     (simp_all add: addEventListener_def Let_def update_conv' update_last)

lemma addEventListener_NotFunction:
  "addEventListener ty (NotFunction v) st = Inl (Error ''Callback must be a function'')"
  by (simp add: addEventListener_def)

lemma addEventListener_pages:
  assumes "addEventListener ty cb st = Inr st'"
  shows "currentPage st' = currentPage st" "totalPages st' = totalPages st"
proof -
  obtain f where cb: "cb = Function f"
    using assms by (cases cb) (simp_all add: addEventListener_NotFunction)
  show "currentPage st' = currentPage st" "totalPages st' = totalPages st"
    using assms unfolding cb addEventListener_Function by auto
qed

lemma removeEventListener_pages:
  "currentPage (removeEventListener ty f st) = currentPage st"
  "totalPages (removeEventListener ty f st) = totalPages st"
  by (simp_all add: removeEventListener_def split: option.splits)

lemma reachable_inv:
  "reachable beh T st \<Longrightarrow>
     1 \<le> currentPage st \<and> currentPage st \<le> totalPages st \<and> totalPages st = T"
proof (induction rule: reachable.induct)
  case (constructed st)
  then show ?case unfolding constructor_Some by (auto split: if_splits)
next
  case (page_set st v)
  then show ?case
    using setCurrentPage_in_range [of st beh v] by (simp add: setCurrentPage_fields)
next
  case (listener_added st ty cb st')
  then show ?case by (simp add: addEventListener_pages)
next
  case (listener_removed st ty f)
  then show ?case by (simp add: removeEventListener_pages)
next
  case (chat_toggled st b)
  then show ?case by simp
qed

lemma Set_add_distinct: "distinct fs \<Longrightarrow> distinct (Set_add f fs)"
  by (simp add: Set_add_def)

lemma Set_delete_distinct: "distinct fs \<Longrightarrow> distinct (Set_delete f fs)"
  by (cases f) (simp_all add: Set_delete_def distinct_removeAll)

lemma addEventListener_listeners:
  assumes "addEventListener ty (Function f) st = Inr st'"
  shows "map_of (listeners st') =
           (map_of (listeners st))(ty \<mapsto>
              Set_add f (case map_of (listeners st) ty of None \<Rightarrow> [] | Some fs \<Rightarrow> fs))"
  using assms unfolding addEventListener_Function by (auto simp add: update_conv')

lemma reachable_distinct:
  "reachable beh T st \<Longrightarrow> map_of (listeners st) ty = Some fs \<Longrightarrow> distinct fs"
proof (induction arbitrary: ty fs rule: reachable.induct)
  case (constructed st)
  then have "listeners st = []"
    unfolding constructor_Some by (auto split: if_splits)
  then show ?case using constructed.prems by simp
next
  case (page_set st v)
  then show ?case by (simp add: setCurrentPage_fields)
next
  case (listener_added st ty' cb st')
  then obtain f where cb: "cb = Function f"
    by (cases cb) (simp_all add: addEventListener_NotFunction)
  define gs where "gs = (case map_of (listeners st) ty' of None \<Rightarrow> [] | Some fs \<Rightarrow> fs)"
  have "distinct gs"
  proof (cases "map_of (listeners st) ty'")
    case None
    then show ?thesis by (simp add: gs_def)
  next
    case (Some hs)
    then show ?thesis using listener_added.IH [of ty' hs] by (simp add: gs_def)
  qed
  then have d: "distinct (Set_add f gs)" by (rule Set_add_distinct)
  have l: "map_of (listeners st') = (map_of (listeners st))(ty' \<mapsto> Set_add f gs)"
    using listener_added.hyps(2) unfolding cb gs_def by (rule addEventListener_listeners)
  show ?case
  proof (cases "ty = ty'")
    case True
    then show ?thesis using listener_added.prems l d by simp
  next
    case False
    then show ?thesis using listener_added.prems l listener_added.IH [of ty fs] by simp
  qed
next
  case (listener_removed st ty' f)
  show ?case
  proof (cases "map_of (listeners st) ty'")
    case None
    then show ?thesis
      using listener_removed.prems listener_removed.IH [of ty fs]
      by (simp add: removeEventListener_def)
  next
    case (Some gs)
    then have "distinct gs" using listener_removed.IH [of ty' gs] by simp
    then have d: "distinct (Set_delete f gs)" by (rule Set_delete_distinct)
    have l: "map_of (listeners (removeEventListener ty' f st)) =
               (map_of (listeners st))(ty' \<mapsto> Set_delete f gs)"
      using Some by (simp add: removeEventListener_def update_conv')
    show ?thesis
    proof (cases "ty = ty'")
      case True
      then show ?thesis using listener_removed.prems l d by simp
    next
      case False
      then show ?thesis using listener_removed.prems l listener_removed.IH [of ty fs] by simp
    qed
  qed
next
  case (chat_toggled st b)
  then show ?case by simp
qed

lemma reachable_run:
  "reachable beh T st \<Longrightarrow> reachable beh T (setCurrentPage_run beh vs st)"
proof (induction vs arbitrary: st)
  case Nil
  then show ?case by simp
next
  case (Cons v vs)
  have "reachable beh T (snd (setCurrentPage beh v st))"
    using Cons.prems by (rule reachable.page_set)
  then show ?case using Cons.IH by simp
qed

lemma count_list_distinct: "distinct xs \<Longrightarrow> x \<in> set xs \<Longrightarrow> count_list xs x = 1"
  by (induction xs) (auto simp add: count_list_0_iff)

subsection \<open>Claims about the store\<close>

text \<open>
  C1. For every integer \<open>n\<close> and every store state, \<^verbatim>\<open>setCurrentPage(n)\<close> returns true
  if and only if \<open>1 \<le> n \<le> totalPages\<close> and \<open>n \<noteq> currentPage\<close>; an argument that is not an
  integer (a fraction, NaN, an infinity, a value that is no number) is refused; and
  whenever the call returns false the store is left as it was, \<open>currentPage\<close> and
  \<open>totalPages\<close> included. The statement needs no reachability assumption: it holds in
  every store state.
\<close>

theorem setCurrentPage_succeeds_iff:
  "(fst (setCurrentPage beh (JNum n) st) \<longleftrightarrow>
      1 \<le> n \<and> n \<le> totalPages st \<and> n \<noteq> currentPage st)
   \<and> (\<not> Number_isInteger v \<longrightarrow> \<not> fst (setCurrentPage beh v st))
   \<and> (\<not> fst (setCurrentPage beh v st) \<longrightarrow> snd (setCurrentPage beh v st) = st)"
proof (intro conjI impI)
  show "fst (setCurrentPage beh (JNum n) st) \<longleftrightarrow>
      1 \<le> n \<and> n \<le> totalPages st \<and> n \<noteq> currentPage st"
    by (simp add: setCurrentPage_JNum)
next
  assume "\<not> Number_isInteger v"
  then show "\<not> fst (setCurrentPage beh v st)" by (simp add: setCurrentPage_not_number)
next
  assume "\<not> fst (setCurrentPage beh v st)"
  then show "snd (setCurrentPage beh v st) = st" by (rule setCurrentPage_rejected)
qed

theorem setCurrentPage_succeeds_iff_witness:
  "fst (setCurrentPage quiet (JNum 5) (fresh 10))
   \<and> \<not> fst (setCurrentPage quiet (JNum 11) (fresh 10))
   \<and> snd (setCurrentPage quiet (JNum 11) (fresh 10)) = fresh 10
   \<and> \<not> fst (setCurrentPage quiet (JStr ''5'') (fresh 10))
   \<and> snd (setCurrentPage quiet (JStr ''5'') (fresh 10)) = fresh 10
   \<and> \<not> fst (setCurrentPage quiet (JNum 1) (fresh 10))
   \<and> snd (setCurrentPage quiet (JNum 1) (fresh 10)) = fresh 10
   \<and> \<not> fst (setCurrentPage quiet (JFrac ''2.5'') (fresh 10))
   \<and> snd (setCurrentPage quiet (JFrac ''2.5'') (fresh 10)) = fresh 10"
  using setCurrentPage_succeeds_iff [of quiet 5 "fresh 10" "JNum 11"]
        setCurrentPage_succeeds_iff [of quiet 11 "fresh 10" "JStr ''5''"]
        setCurrentPage_succeeds_iff [of quiet 1 "fresh 10" "JNum 1"]
        setCurrentPage_succeeds_iff [of quiet 1 "fresh 10" "JFrac ''2.5''"]
  by (simp add: fresh_def)

text \<open>
  C2. An accepted \<^verbatim>\<open>setCurrentPage(n)\<close> hands exactly one event to \<^verbatim>\<open>_emit\<close>, of
  type \<^verbatim>\<open>pageChanged\<close> with the data \<open>{currentPage: n, previousPage: the page before the
  call, totalPages}\<close>; the call is synchronous, the event list and the invocations being
  those of the returned store; every listener invoked during the call gets that data and
  finds \<^verbatim>\<open>getCurrentPage()\<close> already at \<open>n\<close>. A rejected or no-op call emits nothing and
  calls no listener.
\<close>
theorem pageChanged_emitted_once:
  "(fst (setCurrentPage beh v st) \<longrightarrow>
      (\<exists>n. v = JNum n
         \<and> currentPage (snd (setCurrentPage beh v st)) = n
         \<and> emitted (snd (setCurrentPage beh v st)) =
             emitted st @ [(''pageChanged'', PageChanged n (currentPage st) (totalPages st))]
         \<and> list_all (call_ok beh (PageChanged n (currentPage st) (totalPages st)) n)
              (calls_since st (snd (setCurrentPage beh v st)))))
   \<and> (\<not> fst (setCurrentPage beh v st) \<longrightarrow>
        emitted (snd (setCurrentPage beh v st)) = emitted st
        \<and> calls (snd (setCurrentPage beh v st)) = calls st)"
proof (rule conjI; rule impI)
  assume "fst (setCurrentPage beh v st)"
  then obtain n where n: "v = JNum n" "1 \<le> n" "n \<le> totalPages st" "n \<noteq> currentPage st"
    using setCurrentPage_accepted_iff [of beh v st] by auto
  define d where "d = PageChanged n (currentPage st) (totalPages st)"
  define st1 where "st1 = st\<lparr>currentPage := n\<rparr>"
  have r: "snd (setCurrentPage beh v st) = emit beh ''pageChanged'' d st1"
    using n by (simp add: setCurrentPage_JNum d_def st1_def)
  obtain cs where cs: "calls (emit beh ''pageChanged'' d st1) = calls st1 @ cs"
      "list_all (call_ok beh d (currentPage st1)) cs"
    using emit_log [of beh "''pageChanged''" d st1] by auto
  have s1: "calls st1 = calls st" "currentPage st1 = n" "emitted st1 = emitted st"
    by (simp_all add: st1_def)
  have a: "calls_since st (emit beh ''pageChanged'' d st1) = cs"
    using cs(1) unfolding s1 by (rule calls_since_append)
  have h1: "currentPage (snd (setCurrentPage beh v st)) = n" unfolding r by (simp add: s1)
  have h2: "emitted (snd (setCurrentPage beh v st)) = emitted st @ [(''pageChanged'', d)]"
    unfolding r by (simp add: s1)
  have h3: "list_all (call_ok beh d n) (calls_since st (snd (setCurrentPage beh v st)))"
    unfolding r a using cs(2) unfolding s1 .
  show "\<exists>n. v = JNum n
         \<and> currentPage (snd (setCurrentPage beh v st)) = n
         \<and> emitted (snd (setCurrentPage beh v st)) =
             emitted st @ [(''pageChanged'', PageChanged n (currentPage st) (totalPages st))]
         \<and> list_all (call_ok beh (PageChanged n (currentPage st) (totalPages st)) n)
              (calls_since st (snd (setCurrentPage beh v st)))"
    by (intro exI [of _ n] conjI n(1) h1 h2 [unfolded d_def] h3 [unfolded d_def])
next
  assume "\<not> fst (setCurrentPage beh v st)"
  then have "snd (setCurrentPage beh v st) = st" by (rule setCurrentPage_rejected)
  then show "emitted (snd (setCurrentPage beh v st)) = emitted st
        \<and> calls (snd (setCurrentPage beh v st)) = calls st" by simp
qed

theorem pageChanged_emitted_once_witness:
  "fst (setCurrentPage quiet (JNum 5) (watched [3, 4]))
   \<and> emitted (snd (setCurrentPage quiet (JNum 5) (watched [3, 4]))) =
       [(''pageChanged'', PageChanged 5 1 10)]
   \<and> calls (snd (setCurrentPage quiet (JNum 5) (watched [3, 4]))) =
       [\<lparr>who = 3, payload = PageChanged 5 1 10, seenPage = 5, result = Returns\<rparr>,
        \<lparr>who = 4, payload = PageChanged 5 1 10, seenPage = 5, result = Returns\<rparr>]
   \<and> \<not> fst (setCurrentPage quiet (JNum 11) (watched [3, 4]))
   \<and> emitted (snd (setCurrentPage quiet (JNum 11) (watched [3, 4]))) = []"
  using pageChanged_emitted_once [of quiet "JNum 5" "watched [3, 4]"]
        pageChanged_emitted_once [of quiet "JNum 11" "watched [3, 4]"]
  by (simp add: setCurrentPage_JNum watched_def emit_def invoke_def quiet_def
        getCurrentPage_def)


text \<open>
  C3. Construction without an argument or with \<open>totalPages < 1\<close> throws. Construction with
  \<open>totalPages = T \<ge> 1\<close> returns a store, and after any run of \<^verbatim>\<open>setCurrentPage\<close> calls
  with arbitrary arguments (the empty run included) \<open>1 \<le> currentPage \<le> totalPages\<close> holds
  and \<open>totalPages\<close> is still \<open>T\<close>; the same holds in every state reachable through the
  store's other methods as well.
\<close>
theorem page_invariant:
  "StateManager_constructor None = Inl (Error ''totalPages must be a positive number'')
   \<and> (T < 1 \<longrightarrow>
        StateManager_constructor (Some T) = Inl (Error ''totalPages must be a positive number''))
   \<and> (1 \<le> T \<longrightarrow>
        (\<exists>st0. StateManager_constructor (Some T) = Inr st0
           \<and> 1 \<le> currentPage (setCurrentPage_run beh vs st0)
           \<and> currentPage (setCurrentPage_run beh vs st0) \<le> totalPages (setCurrentPage_run beh vs st0)
           \<and> totalPages (setCurrentPage_run beh vs st0) = T))
   \<and> (reachable beh T st \<longrightarrow>
        1 \<le> currentPage st \<and> currentPage st \<le> totalPages st \<and> totalPages st = T)"
proof (intro conjI)
  show "StateManager_constructor None = Inl (Error ''totalPages must be a positive number'')"
    by (simp add: StateManager_constructor_def)
next
  show "T < 1 \<longrightarrow>
        StateManager_constructor (Some T) = Inl (Error ''totalPages must be a positive number'')"
    by (simp add: constructor_Some)
next
  show "1 \<le> T \<longrightarrow>
        (\<exists>st0. StateManager_constructor (Some T) = Inr st0
           \<and> 1 \<le> currentPage (setCurrentPage_run beh vs st0)
           \<and> currentPage (setCurrentPage_run beh vs st0) \<le> totalPages (setCurrentPage_run beh vs st0)
           \<and> totalPages (setCurrentPage_run beh vs st0) = T)"
  proof (rule impI)
    assume T: "1 \<le> T"
    have c: "StateManager_constructor (Some T) = Inr (fresh T)"
      using T by (simp add: constructor_Some fresh_def)
    then have "reachable beh T (fresh T)" by (rule reachable.constructed)
    then have "reachable beh T (setCurrentPage_run beh vs (fresh T))" by (rule reachable_run)
    then have i: "1 \<le> currentPage (setCurrentPage_run beh vs (fresh T))
        \<and> currentPage (setCurrentPage_run beh vs (fresh T))
             \<le> totalPages (setCurrentPage_run beh vs (fresh T))
        \<and> totalPages (setCurrentPage_run beh vs (fresh T)) = T"
      by (rule reachable_inv)
    show "\<exists>st0. StateManager_constructor (Some T) = Inr st0
           \<and> 1 \<le> currentPage (setCurrentPage_run beh vs st0)
           \<and> currentPage (setCurrentPage_run beh vs st0) \<le> totalPages (setCurrentPage_run beh vs st0)
           \<and> totalPages (setCurrentPage_run beh vs st0) = T"
      by (rule exI [of _ "fresh T"], rule conjI, rule c, rule i)
  qed
next
  show "reachable beh T st \<longrightarrow>
        1 \<le> currentPage st \<and> currentPage st \<le> totalPages st \<and> totalPages st = T"
    by (rule impI, rule reachable_inv)
qed

theorem page_invariant_witness:
  "StateManager_constructor (Some 0) = Inl (Error ''totalPages must be a positive number'')
   \<and> StateManager_constructor (Some 10) = Inr (fresh 10)
   \<and> currentPage (setCurrentPage_run quiet [JNum 5, JNum 11, JNum 0, JStr ''7'', JNum 10]
                     (fresh 10)) = 10
   \<and> totalPages (setCurrentPage_run quiet [JNum 5, JNum 11, JNum 0, JStr ''7'', JNum 10]
                     (fresh 10)) = 10"
proof -
  have r: "reachable quiet 10 (fresh 10)"
    by (rule reachable.constructed) (simp add: constructor_Some fresh_def)
  show ?thesis
    using page_invariant [of 0 quiet "[]" "fresh 10"]
          page_invariant [of 10 quiet "[JNum 5, JNum 11, JNum 0, JStr ''7'', JNum 10]" "fresh 10"]
          r
    by (simp add: constructor_Some fresh_def setCurrentPage_JNum setCurrentPage_not_number
          emit_def)
qed

lemma accepted_change_invocations:
  assumes "1 \<le> n" and "n \<le> totalPages st" and "n \<noteq> currentPage st"
  shows "fst (setCurrentPage beh (JNum n) st)
     \<and> currentPage (snd (setCurrentPage beh (JNum n) st)) = n
     \<and> map who (calls_since st (snd (setCurrentPage beh (JNum n) st)))
           = registered st ''pageChanged''
     \<and> list_all (call_ok beh (PageChanged n (currentPage st) (totalPages st)) n)
          (calls_since st (snd (setCurrentPage beh (JNum n) st)))
     \<and> errlog (snd (setCurrentPage beh (JNum n) st)) =
         errlog st @ thrown (calls_since st (snd (setCurrentPage beh (JNum n) st)))"
proof -
  define d where "d = PageChanged n (currentPage st) (totalPages st)"
  define st1 where "st1 = st\<lparr>currentPage := n\<rparr>"
  have r: "setCurrentPage beh (JNum n) st = (True, emit beh ''pageChanged'' d st1)"
    using assms(1-3) by (simp add: setCurrentPage_JNum d_def st1_def)
  have s1: "calls st1 = calls st" "currentPage st1 = n" "errlog st1 = errlog st"
      "listeners st1 = listeners st"
    by (simp_all add: st1_def)
  obtain cs where cs: "calls (emit beh ''pageChanged'' d st1) = calls st1 @ cs"
      "map who cs = (case map_of (listeners st1) ''pageChanged'' of None \<Rightarrow> [] | Some fs \<Rightarrow> fs)"
      "list_all (call_ok beh d (currentPage st1)) cs"
      "errlog (emit beh ''pageChanged'' d st1) = errlog st1 @ thrown cs"
    using emit_log [of beh "''pageChanged''" d st1] by auto
  have a: "calls_since st (emit beh ''pageChanged'' d st1) = cs"
    using cs(1) unfolding s1 by (rule calls_since_append)
  have h1: "fst (setCurrentPage beh (JNum n) st)" unfolding r by simp
  have h2: "currentPage (snd (setCurrentPage beh (JNum n) st)) = n" unfolding r by (simp add: s1)
  have h3: "map who (calls_since st (snd (setCurrentPage beh (JNum n) st)))
              = registered st ''pageChanged''"
    unfolding r snd_conv a cs(2) s1 registered_def by (rule refl)
  have h4: "list_all (call_ok beh d n) (calls_since st (snd (setCurrentPage beh (JNum n) st)))"
    unfolding r snd_conv a using cs(3) unfolding s1 .
  have h5: "errlog (snd (setCurrentPage beh (JNum n) st)) =
         errlog st @ thrown (calls_since st (snd (setCurrentPage beh (JNum n) st)))"
    unfolding r snd_conv a cs(4) s1 by (rule refl)
  show ?thesis by (intro conjI h1 h2 h3 h4 [unfolded d_def] h5)
qed

text \<open>
  C7. Listener isolation. Whatever the registered \<^verbatim>\<open>pageChanged\<close> listeners do, throwing
  included, an in-range change to a new page returns true and keeps \<open>currentPage = n\<close>;
  the listeners invoked are all the registered ones, in registration order, each with
  the same event data; and the error log grows by exactly the errors thrown, in order.
\<close>

theorem listener_isolation:
  assumes "1 \<le> n" and "n \<le> totalPages st" and "n \<noteq> currentPage st"
  shows "fst (setCurrentPage beh (JNum n) st)
     \<and> currentPage (snd (setCurrentPage beh (JNum n) st)) = n
     \<and> map who (calls_since st (snd (setCurrentPage beh (JNum n) st)))
           = registered st ''pageChanged''
     \<and> list_all (call_ok beh (PageChanged n (currentPage st) (totalPages st)) n)
          (calls_since st (snd (setCurrentPage beh (JNum n) st)))
     \<and> errlog (snd (setCurrentPage beh (JNum n) st)) =
         errlog st @ thrown (calls_since st (snd (setCurrentPage beh (JNum n) st)))"
  using assms by (rule accepted_change_invocations)

theorem listener_isolation_witness:
  "fst (setCurrentPage (faulty 3) (JNum 5) (watched [3, 4]))
   \<and> currentPage (snd (setCurrentPage (faulty 3) (JNum 5) (watched [3, 4]))) = 5
   \<and> calls (snd (setCurrentPage (faulty 3) (JNum 5) (watched [3, 4]))) =
       [\<lparr>who = 3, payload = PageChanged 5 1 10, seenPage = 5,
          result = Throws ''listener failed''\<rparr>,
        \<lparr>who = 4, payload = PageChanged 5 1 10, seenPage = 5, result = Returns\<rparr>]
   \<and> errlog (snd (setCurrentPage (faulty 3) (JNum 5) (watched [3, 4]))) = [''listener failed'']"
proof -
  have h1: "(1::int) \<le> 5" by simp
  have h2: "5 \<le> totalPages (watched [3, 4])" by (simp add: watched_def)
  have h3: "5 \<noteq> currentPage (watched [3, 4])" by (simp add: watched_def)
  show ?thesis
    using listener_isolation [OF h1 h2 h3, of "faulty 3"]
    by (simp add: setCurrentPage_JNum watched_def emit_def invoke_def faulty_def
          getCurrentPage_def)
qed

text \<open>
  C10. Registering the same callback a second time for the same event type changes
  nothing: the second \<^verbatim>\<open>addEventListener\<close> returns the store it was given. For the type
  \<^verbatim>\<open>pageChanged\<close>, an accepted \<^verbatim>\<open>setCurrentPage\<close> then invokes that callback exactly
  once.
\<close>
theorem addEventListener_idempotent:
  assumes "reachable beh T st" and "addEventListener ty (Function f) st = Inr st1"
  shows "addEventListener ty (Function f) st1 = Inr st1
     \<and> (ty = ''pageChanged'' \<longrightarrow> fst (setCurrentPage beh v st1) \<longrightarrow>
          count_list (map who (calls_since st1 (snd (setCurrentPage beh v st1)))) f = 1)"
proof -
  define gs where "gs = (case map_of (listeners st) ty of None \<Rightarrow> [] | Some fs \<Rightarrow> fs)"
  have l: "map_of (listeners st1) = (map_of (listeners st))(ty \<mapsto> Set_add f gs)"
    using assms(2) unfolding gs_def by (rule addEventListener_listeners)
  then have m: "map_of (listeners st1) ty = Some (Set_add f gs)" by simp
  have i: "Set_add f (Set_add f gs) = Set_add f gs" by (simp add: Set_add_def)
  have u: "AList.update ty (Set_add f gs) (listeners st1) = listeners st1"
    using m by (rule update_triv)
  have first: "addEventListener ty (Function f) st1 = Inr st1"
    unfolding addEventListener_Function m option.case i u by simp
  have r1: "reachable beh T st1" using assms by (rule reachable.listener_added)
  have dist: "distinct (Set_add f gs)" using r1 m by (rule reachable_distinct)
  have mem: "f \<in> set (Set_add f gs)" by (simp add: Set_add_def)
  have second: "count_list (map who (calls_since st1 (snd (setCurrentPage beh v st1)))) f = 1"
    if ty: "ty = ''pageChanged''" and ok: "fst (setCurrentPage beh v st1)"
  proof -
    obtain n where n: "v = JNum n" "1 \<le> n" "n \<le> totalPages st1" "n \<noteq> currentPage st1"
      using ok setCurrentPage_accepted_iff [of beh v st1] by auto
    have "map who (calls_since st1 (snd (setCurrentPage beh (JNum n) st1))) = Set_add f gs"
      using accepted_change_invocations [OF n(2) n(3) n(4), of beh] m
      by (simp add: registered_def ty)
    then show ?thesis unfolding n(1) using dist mem by (simp add: count_list_distinct)
  qed
  show ?thesis using first second by simp
qed

theorem addEventListener_idempotent_witness:
  "addEventListener ''pageChanged'' (Function 7) (fresh 10) = Inr (watched [7])
   \<and> addEventListener ''pageChanged'' (Function 7) (watched [7]) = Inr (watched [7])
   \<and> fst (setCurrentPage quiet (JNum 5) (watched [7]))
   \<and> count_list (map who (calls_since (watched [7])
          (snd (setCurrentPage quiet (JNum 5) (watched [7]))))) 7 = 1"
proof -
  have r: "reachable quiet 10 (fresh 10)"
    by (rule reachable.constructed) (simp add: constructor_Some fresh_def)
  have a: "addEventListener ''pageChanged'' (Function 7) (fresh 10) = Inr (watched [7])"
    by (simp add: addEventListener_Function fresh_def watched_def Set_add_def)
  have ok: "fst (setCurrentPage quiet (JNum 5) (watched [7]))"
    by (simp add: setCurrentPage_JNum watched_def)
  show ?thesis
    using addEventListener_idempotent [OF r a, of "JNum 5"] a ok by simp
qed

section \<open>Properties of the tool adapter\<close>













lemma NavigationController_goToPage_eq:
  "NavigationController_goToPage beh v st = setCurrentPage beh v st"
  by (cases "setCurrentPage beh v st") (simp add: NavigationController_goToPage_def)

lemma page_argument_read:
  "params \<noteq> JNull \<Longrightarrow>
     (if typeof params = ''object'' then get_prop params ''pageNumber'' else Inr params) =
       Inr (page_argument params)"
  by (cases params) (simp_all add: page_argument_def)

text \<open>
  The tool on an argument other than null, by what \<^verbatim>\<open>parseInt\<close> reads in the page argument:
  the invalid-page result when it reads NaN, an infinity or an integer outside
  \<open>1..totalPages\<close>; a jump when it reads another page in range; the failure result when it
  reads the current page.
\<close>

lemma goToPage_invalid:
  assumes "params \<noteq> JNull"
    and "parseInt h (page_argument params) = PNaN
         \<or> (\<exists>b. parseInt h (page_argument params) = PInfinity b)
         \<or> (\<exists>n. parseInt h (page_argument params) = PInt n \<and> (n < 1 \<or> n > totalPages st))"
  shows "clientTools_goToPage h beh params st =
           Inr (\<lparr>success = False,
                 message = ''Invalid page number. Must be between 1 and ''
                             @ Number_toString h (totalPages st),
                 res_currentPage = currentPage st, res_totalPages = totalPages st\<rparr>, st)"
  using assms(2)
  by (auto simp add: clientTools_goToPage_def page_argument_read [OF assms(1)] Let_def
        getTotalPages_def getCurrentPage_def)

lemma goToPage_jump:
  assumes "params \<noteq> JNull" and "parseInt h (page_argument params) = PInt n"
    and "1 \<le> n" and "n \<le> totalPages st" and "n \<noteq> currentPage st"
  shows "clientTools_goToPage h beh params st =
           Inr (\<lparr>success = True,
                 message = ''Jumped to page '' @ Number_toString h n @ '' of ''
                             @ Number_toString h (totalPages st),
                 res_currentPage = n, res_totalPages = totalPages st\<rparr>,
                emit beh ''pageChanged'' (PageChanged n (currentPage st) (totalPages st))
                  (st\<lparr>currentPage := n\<rparr>))"
  using assms(2-5)
  by (simp add: clientTools_goToPage_def page_argument_read [OF assms(1)] Let_def
        getTotalPages_def getCurrentPage_def NavigationController_goToPage_eq
        setCurrentPage_JNum)


lemma goToPage_scenario:
  assumes "totalPages st = 10" and "currentPage st \<noteq> 3"
  shows "clientTools_goToPage h beh (JObj [(''pageNumber'', JStr ''3'')]) st =
           Inr (\<lparr>success = True, message = ''Jumped to page 3 of 10'',
                 res_currentPage = 3, res_totalPages = 10\<rparr>,
                emit beh ''pageChanged'' (PageChanged 3 (currentPage st) 10)
                  (st\<lparr>currentPage := 3\<rparr>))"
proof -
  have p: "parseInt h (page_argument (JObj [(''pageNumber'', JStr ''3'')])) = PInt 3"
    by (simp add: page_argument_def parseInt_def js_whitespace_def is_digit_def digit_value_def
          safe_integer_def)
  have m: "Number_toString h 3 = ''3''" "Number_toString h 10 = ''10''"
    by (simp_all add: Number_toString_def safe_integer_def digits.simps digit_char_def)
  show ?thesis
    using goToPage_jump [of "JObj [(''pageNumber'', JStr ''3'')]" h 3 st beh] p assms
    by (simp add: m)
qed

text \<open>
  The page argument is read with \<^verbatim>\<open>parseInt\<close>, so a string with a leading number and a
  small fraction printed in exponent form are pages too.
\<close>

lemma goToPage_lenient:
  "parseInt h (JStr ''3abc'') = PInt 3" "parseInt h (JFrac ''5e-7'') = PInt 5"
  "parseInt h (JFrac ''10.5'') = PInt 10"
  by (simp_all add: parseInt_def js_whitespace_def is_digit_def digit_value_def safe_integer_def)

subsection \<open>Claims about the tool adapter\<close>

text \<open>
  C4. The claim: for every input of the \<^verbatim>\<open>goToPage\<close> tool, a bare value or an object with
  a \<^verbatim>\<open>pageNumber\<close> field, a non-numeric or out-of-range page yields a result with
  \<open>success = false\<close> and a message starting \<^verbatim>\<open>Invalid page number\<close>, the page unchanged.
  On the bare value \<^verbatim>\<open>null\<close> the tool returns no result at all: \<^verbatim>\<open>typeof null\<close> is
  \<^verbatim>\<open>'object'\<close>, so it reads \<^verbatim>\<open>null.pageNumber\<close>, which throws a TypeError.
\<close>

theorem goToPage_null_throws:
  "clientTools_goToPage h beh JNull st = Inl TypeError"
  by (simp add: clientTools_goToPage_def)




section \<open>Properties of the transcript manager\<close>

lemma determineRole_order:
  "\<not> nullish msg \<Longrightarrow> determineRole msg = Inr (role_by_order msg)"
  by (simp add: determineRole_def role_by_order_def)

lemma role_by_order_cases: "role_by_order msg = ''user'' \<or> role_by_order msg = ''agent''"
  by (simp add: role_by_order_def)

lemma nonempty_string_iff:
  "nonempty_string v = (if truthy v \<and> typeof v = ''string'' then Some (string_value v) else None)"
  by (cases v) simp_all

lemma extractContent_order:
  "truthy msg \<Longrightarrow> extractContent msg = Inr (content_by_order msg)"
  by (cases msg) (simp_all add: extractContent_def content_by_order_def nonempty_string_iff)


lemma truthy_not_nullish: "truthy msg \<Longrightarrow> \<not> nullish msg"
  by (cases msg) simp_all

lemma extractTimestamp_total:
  "\<not> nullish msg \<Longrightarrow> \<exists>t. extractTimestamp now msg = Inr t"
  by (simp add: extractTimestamp_def)

lemma addMessage_valid:
  "r = ''user'' \<or> r = ''agent'' \<or> r = ''system'' \<Longrightarrow>
     addMessage r c t (addToHistory r c t st) = appended r c t st"
  by (auto simp add: addMessage_def addToHistory_def appended_def)

lemma handleVoiceMessage_falsy: "\<not> truthy msg \<Longrightarrow> handleVoiceMessage now msg st = Inr st"
  by (simp add: handleVoiceMessage_def)

lemma handleVoiceMessage_truthy:
  assumes "truthy msg"
  shows "\<exists>t. handleVoiceMessage now msg st =
           (case content_by_order msg of
              None \<Rightarrow> Inr st
            | Some s \<Rightarrow> if s = [] then Inr st else Inr (appended (role_by_order msg) s t st))"
proof -
  have n: "\<not> nullish msg" using assms by (rule truthy_not_nullish)
  obtain t where t: "extractTimestamp now msg = Inr t"
    using extractTimestamp_total [OF n] by auto
  have v: "role_by_order msg = ''user'' \<or> role_by_order msg = ''agent'' \<or> role_by_order msg = ''system''"
    using role_by_order_cases [of msg] by auto
  have "handleVoiceMessage now msg st =
           (case content_by_order msg of
              None \<Rightarrow> Inr st
            | Some s \<Rightarrow> if s = [] then Inr st else Inr (appended (role_by_order msg) s t st))"
    using assms
    by (simp add: handleVoiceMessage_def determineRole_order [OF n] extractContent_order [OF assms] t
          addMessage_valid [OF v] split: option.splits)
  then show ?thesis by (rule exI)
qed

lemma nonempty_string_nonempty: "nonempty_string v = Some u \<Longrightarrow> u \<noteq> []"
  by (cases v) (simp_all split: if_splits)

lemma first_some_member: "first_some xs = Some u \<Longrightarrow> Some u \<in> set xs"
  by (induction xs rule: first_some.induct) simp_all

lemma content_by_order_truthy_nonempty:
  assumes "truthy msg" and "content_by_order msg = Some s"
  shows "s \<noteq> []"
proof -
  have "Some s \<in> set (map (\<lambda>k. nonempty_string (read_prop msg k))
                         [''message'', ''text'', ''content'', ''transcript'']
                       @ [nonempty_string msg])"
    using assms(2) unfolding content_by_order_def by (rule first_some_member)
  then obtain v where "nonempty_string v = Some s" by auto
  then show ?thesis by (rule nonempty_string_nonempty)
qed

lemma trim_whitespace:
  assumes "list_all js_whitespace s"
  shows "trim s = []"
proof -
  have h: "dropWhile js_whitespace s = []"
    using assms by (induction s) simp_all
  show ?thesis unfolding trim_def h by simp
qed

subsection \<open>Claims about the transcript manager\<close>

text \<open>
  C5. For every message that is not null or undefined, \<^verbatim>\<open>_determineRole\<close> returns the role
  of the specification's first-match order; and for every argument whatsoever,
  \<^verbatim>\<open>handleVoiceMessage\<close> either leaves the transcript as it was or appends one entry whose
  role is the role of that order.
\<close>

theorem role_inference_order:
  "(\<not> nullish msg \<longrightarrow> determineRole msg = Inr (role_by_order msg))
   \<and> (handleVoiceMessage now msg st = Inr st
        \<or> (\<exists>c t. handleVoiceMessage now msg st = Inr (appended (role_by_order msg) c t st)))"
proof (rule conjI)
  show "\<not> nullish msg \<longrightarrow> determineRole msg = Inr (role_by_order msg)"
    by (rule impI, rule determineRole_order)
next
  show "handleVoiceMessage now msg st = Inr st
        \<or> (\<exists>c t. handleVoiceMessage now msg st = Inr (appended (role_by_order msg) c t st))"
  proof (cases "truthy msg")
    case False
    then show ?thesis by (simp add: handleVoiceMessage_falsy)
  next
    case True
    obtain t where t: "handleVoiceMessage now msg st =
           (case content_by_order msg of
              None \<Rightarrow> Inr st
            | Some s \<Rightarrow> if s = [] then Inr st else Inr (appended (role_by_order msg) s t st))"
      using handleVoiceMessage_truthy [OF True] by auto
    show ?thesis
    proof (cases "content_by_order msg")
      case None
      then show ?thesis using t by simp
    next
      case (Some s)
      have "s \<noteq> []" using True Some by (rule content_by_order_truthy_nonempty)
      then have "handleVoiceMessage now msg st = Inr (appended (role_by_order msg) s t st)"
        using t Some by simp
      then show ?thesis by (intro disjI2 exI)
    qed
  qed
qed

theorem role_inference_order_witness:
  "determineRole (JObj [(''source'', JStr ''user''), (''message'', JStr ''hello'')]) = Inr ''user''
   \<and> determineRole (JObj [(''type'', JStr ''agent_response''), (''text'', JStr ''hi'')]) = Inr ''agent''
   \<and> determineRole (JObj [(''source'', JStr ''ai''), (''role'', JStr ''user'')]) = Inr ''agent''
   \<and> determineRole (JObj [(''role'', JStr ''user'')]) = Inr ''user''
   \<and> determineRole (JObj [(''role'', JStr ''assistant'')]) = Inr ''agent''
   \<and> determineRole (JObj [(''foo'', JStr ''bar'')]) = Inr ''agent''"
  using role_inference_order [of "JObj [(''source'', JStr ''user''), (''message'', JStr ''hello'')]"]
        role_inference_order [of "JObj [(''type'', JStr ''agent_response''), (''text'', JStr ''hi'')]"]
        role_inference_order [of "JObj [(''source'', JStr ''ai''), (''role'', JStr ''user'')]"]
        role_inference_order [of "JObj [(''role'', JStr ''user'')]"]
        role_inference_order [of "JObj [(''role'', JStr ''assistant'')]"]
        role_inference_order [of "JObj [(''foo'', JStr ''bar'')]"]
  by (simp add: role_by_order_def read_prop_def)



text \<open>
  C8. For an argument that is a string of white space only, the empty string included,
  and for an argument that is not a string, \<^verbatim>\<open>sendTextMessage\<close> returns the transcript
  manager as it was: no history entry, no display update, nothing sent, with or without
  a session.
\<close>

theorem sendTextMessage_blank_noop:
  assumes "case text of JStr s \<Rightarrow> list_all js_whitespace s | _ \<Rightarrow> True"
  shows "sendTextMessage now1 now2 text st = st"
proof (cases "text")
  case (JStr s)
  then have "trim s = []" using assms by (simp add: trim_whitespace)
  then show ?thesis using JStr by (simp add: sendTextMessage_def)
qed (simp_all add: sendTextMessage_def)

theorem sendTextMessage_blank_noop_witness:
  "sendTextMessage 1 2 (JStr []) connected = connected
   \<and> sendTextMessage 1 2 (JStr ''   '') connected = connected
   \<and> sendTextMessage 1 2 (JStr ''   '') empty_transcript = empty_transcript
   \<and> sendTextMessage 1 2 (JNum 5) connected = connected
   \<and> sendTextMessage 1 2 JUndefined empty_transcript = empty_transcript"
proof -
  have a: "case JStr [] of JStr s \<Rightarrow> list_all js_whitespace s | _ \<Rightarrow> True" by simp
  have b: "case JStr ''   '' of JStr s \<Rightarrow> list_all js_whitespace s | _ \<Rightarrow> True"
    by (simp add: js_whitespace_def)
  have c: "case JNum 5 of JStr s \<Rightarrow> list_all js_whitespace s | _ \<Rightarrow> True" by simp
  have d: "case JUndefined of JStr s \<Rightarrow> list_all js_whitespace s | _ \<Rightarrow> True" by simp
  show ?thesis
    using sendTextMessage_blank_noop [OF a, of 1 2 connected]
          sendTextMessage_blank_noop [OF b, of 1 2 connected]
          sendTextMessage_blank_noop [OF b, of 1 2 empty_transcript]
          sendTextMessage_blank_noop [OF c, of 1 2 connected]
          sendTextMessage_blank_noop [OF d, of 1 2 empty_transcript]
    by simp
qed

end
